theory Spec2Isabelle
  imports Complex_Main "HOL-Library.Log_Nat"
begin

section \<open>Python values used by the generator\<close>

text \<open>
  The generator \<^verbatim>\<open>xilinxutils/dsgen.py\<close> builds C++ text from a list of typed fields.
  Python integers are unbounded, so widths, bit offsets and enum values are \<^typ>\<open>int\<close>;
  counters that start at 0 and are only incremented are \<^typ>\<open>nat\<close>. Strings are
  \<^typ>\<open>string\<close>. Every \<^verbatim>\<open>raise\<close> of the source is an \<open>Inl\<close> result.
\<close>

datatype error = ValueError string | TypeError

text \<open>\<^verbatim>\<open>str(n)\<close> for an integer, as used by every f-string that interpolates a number.\<close>

fun str_nat :: \<open>nat \<Rightarrow> string\<close> where
  \<open>str_nat n =
     (if n < 10 then [''0123456789'' ! n]
      else str_nat (n div 10) @ [''0123456789'' ! (n mod 10)])\<close>

declare str_nat.simps [simp del]

definition str_int :: \<open>int \<Rightarrow> string\<close> where
  \<open>str_int i = (if i < 0 then CHR ''-'' # str_nat (nat (- i)) else str_nat (nat i))\<close>

text \<open>\<^verbatim>\<open>sep.join(xs)\<close>.\<close>

fun join :: \<open>string \<Rightarrow> string list \<Rightarrow> string\<close> where
  \<open>join sep [] = []\<close>
| \<open>join sep [x] = x\<close>
| \<open>join sep (x # y # ys) = x @ sep @ join sep (y # ys)\<close>

text \<open>
  \<^verbatim>\<open>math.ceil(math.log2(n))\<close> on an integer \<open>n\<close>. \<^verbatim>\<open>math.log2\<close> raises
  \<^verbatim>\<open>ValueError("math domain error")\<close> for \<open>n \<le> 0\<close>. For positive \<open>n\<close> the model is
  the exact value, the least \<open>k\<close> with \<open>n \<le> 2 ^ k\<close> (lemma \<open>bits_for_ceiling_log\<close>
  below); the rounding of the double-precision logarithm, which only shows for
  counters near \<open>2 ^ 49\<close> and beyond, is not modelled.
\<close>

fun bits_for :: \<open>nat \<Rightarrow> nat\<close> where
  \<open>bits_for n = (if n \<le> 1 then 0 else Suc (bits_for ((n + 1) div 2)))\<close>

declare bits_for.simps [simp del]

definition ceil_log2 :: \<open>int \<Rightarrow> error + int\<close> where
  \<open>ceil_log2 n =
     (if n \<le> 0 then Inl (ValueError ''math domain error'')
      else Inr (int (bits_for (nat n))))\<close>

section \<open>Type descriptors\<close>

text \<open>
  The three concrete subclasses of \<^verbatim>\<open>BaseType\<close>. \<open>IntType width signed\<close>,
  \<open>FloatType\<close> (width fixed at 32) and \<open>EnumType name entries width\<close>, where the
  entries are the (label, value) pairs stored by the constructor.
\<close>

datatype dtype =
    IntType int bool
  | FloatType
  | EnumType string \<open>(string \<times> int) list\<close> int

fun width :: \<open>dtype \<Rightarrow> int\<close> where
  \<open>width (IntType w sg) = w\<close>
| \<open>width FloatType = 32\<close>
| \<open>width (EnumType nm es w) = w\<close>

text \<open>\<^verbatim>\<open>IntType.__init__\<close>: the width must be positive.\<close>

definition IntType_init :: \<open>int \<Rightarrow> bool \<Rightarrow> error + dtype\<close> where
  \<open>IntType_init w sg =
     (if w \<le> 0 then Inl (ValueError ''Width must be positive'') else Inr (IntType w sg))\<close>

text \<open>
  \<^verbatim>\<open>EnumType.__init__\<close>. An entry of the argument list is a string, a tuple
  (label, value), or something else, which is rejected.
\<close>

datatype entry = Label string | Pair string int | Other

fun enum_entries ::
  \<open>entry list \<Rightarrow> (string \<times> int) list \<Rightarrow> int \<Rightarrow> error + ((string \<times> int) list \<times> int)\<close> where
  \<open>enum_entries [] acc next_val = Inr (acc, next_val)\<close>
| \<open>enum_entries (Label e # es) acc next_val =
     enum_entries es (acc @ [(e, next_val)]) (next_val + 1)\<close>
| \<open>enum_entries (Pair l v # es) acc next_val =
     enum_entries es (acc @ [(l, v)]) (v + 1)\<close>
| \<open>enum_entries (Other # es) acc next_val =
     Inl (ValueError ''Enum entries must be str or (str, int)'')\<close>

definition EnumType_init :: \<open>string \<Rightarrow> entry list \<Rightarrow> int option \<Rightarrow> error + dtype\<close> where
  \<open>EnumType_init nm entries w =
     (case enum_entries entries [] 0 of
        Inl e \<Rightarrow> Inl e
      | Inr (es, next_val) \<Rightarrow>
          (case w of
             Some w' \<Rightarrow> Inr (EnumType nm es w')
           | None \<Rightarrow>
               (case ceil_log2 next_val of
                  Inl e \<Rightarrow> Inl e
                | Inr c \<Rightarrow> Inr (EnumType nm es (max 1 c)))))\<close>

fun cpp_repr :: \<open>dtype \<Rightarrow> string\<close> where
  \<open>cpp_repr (IntType w sg) =
     (let base = (if sg then ''ap_int'' else ''ap_uint'') in base @ ''<'' @ str_int w @ ''>'')\<close>
| \<open>cpp_repr FloatType = ''float''\<close>
| \<open>cpp_repr (EnumType nm es w) = ''ap_uint<'' @ str_int w @ ''>''\<close>

text \<open>The bit-range expression \<^verbatim>\<open>{word_name}.range({high}, {ind0})\<close>.\<close>

definition range_expr :: \<open>string \<Rightarrow> int \<Rightarrow> int \<Rightarrow> string\<close> where
  \<open>range_expr word_name high ind0 =
     word_name @ ''.range('' @ str_int high @ '', '' @ str_int ind0 @ '')''\<close>

fun read_expr_impl :: \<open>dtype \<Rightarrow> string \<Rightarrow> int \<Rightarrow> int \<Rightarrow> error + string\<close> where
  \<open>read_expr_impl (IntType w sg) word_name word_width ind0 =
     (if w = word_width \<and> ind0 = 0 then Inr word_name
      else (let high = ind0 + w - 1 in Inr (range_expr word_name high ind0)))\<close>
| \<open>read_expr_impl FloatType word_name word_width ind0 =
     (if ind0 + 32 > word_width then Inl (ValueError ''Float field does not fit in word'')
      else
        (let src_expr =
           (if 32 = word_width \<and> ind0 = 0 then word_name
            else (let high = ind0 + 32 - 1 in range_expr word_name high ind0))
         in Inr (''union { float f; ap_uint<32> u; } conv;\<newline>''
                 @ ''        conv.u = '' @ src_expr @ '';\<newline>''
                 @ ''        /* assign to variable */ conv.f'')))\<close>
| \<open>read_expr_impl (EnumType nm es w) word_name word_width ind0 =
     (if w = word_width \<and> ind0 = 0 then Inr word_name
      else (let high = ind0 + w - 1 in Inr (range_expr word_name high ind0)))\<close>

fun write_expr_impl :: \<open>dtype \<Rightarrow> string \<Rightarrow> string \<Rightarrow> int \<Rightarrow> int \<Rightarrow> error + string\<close> where
  \<open>write_expr_impl (IntType w sg) var_name word_name word_width ind0 =
     (if w = word_width \<and> ind0 = 0 then Inr (word_name @ '' = '' @ var_name @ '';'')
      else (let high = ind0 + w - 1
            in Inr (range_expr word_name high ind0 @ '' = '' @ var_name @ '';'')))\<close>
| \<open>write_expr_impl FloatType var_name word_name word_width ind0 =
     (if ind0 + 32 > word_width then Inl (ValueError ''Float field does not fit in word'')
      else
        (let high = ind0 + 32 - 1
         in Inr (''union { float f; ap_uint<32> u; } conv;\<newline>''
                 @ ''        conv.f = '' @ var_name @ '';\<newline>''
                 @ ''        '' @ range_expr word_name high ind0 @ '' = conv.u;'')))\<close>
| \<open>write_expr_impl (EnumType nm es w) var_name word_name word_width ind0 =
     (if w = word_width \<and> ind0 = 0 then Inr (word_name @ '' = '' @ var_name @ '';'')
      else (let high = ind0 + w - 1
            in Inr (range_expr word_name high ind0 @ '' = '' @ var_name @ '';'')))\<close>

text \<open>\<^verbatim>\<open>BaseType.read_expr\<close> and \<^verbatim>\<open>BaseType.write_expr\<close>: the check, then the variant.\<close>

definition read_expr :: \<open>dtype \<Rightarrow> string \<Rightarrow> int \<Rightarrow> int \<Rightarrow> error + string\<close> where
  \<open>read_expr t word_name word_width ind0 =
     (if width t + ind0 > word_width
      then Inl (ValueError ''Type bitwidth exceeds word bitwidth at given index.'')
      else read_expr_impl t word_name word_width ind0)\<close>

definition write_expr :: \<open>dtype \<Rightarrow> string \<Rightarrow> string \<Rightarrow> int \<Rightarrow> int \<Rightarrow> error + string\<close> where
  \<open>write_expr t var_name word_name word_width ind0 =
     (if width t + ind0 > word_width
      then Inl (ValueError ''Type bitwidth exceeds word bitwidth at given index.'')
      else write_expr_impl t var_name word_name word_width ind0)\<close>

text \<open>
  \<^verbatim>\<open>preamble\<close>: \<open>None\<close> for every type but the enum, whose declaration lists
  \<^verbatim>\<open>label = value\<close> in stored order.
\<close>

fun preamble :: \<open>dtype \<Rightarrow> string option\<close> where
  \<open>preamble (EnumType nm es w) =
     (let enumerators =
            join '',\<newline>        '' (map (\<lambda>(name, val). name @ '' = '' @ str_int val) es)
      in Some (''enum '' @ nm @ '' : unsigned int {\<newline>        '' @ enumerators
               @ ''\<newline>    };''))\<close>
| \<open>preamble t = None\<close>

section \<open>Fields\<close>

record field =
  name :: string
  dtype :: dtype
  descr :: \<open>string option\<close>
  comment_style :: string

text \<open>\<^verbatim>\<open>FieldInfo.cpp_decl\<close>. A description counts when it is neither \<^verbatim>\<open>None\<close> nor empty.\<close>

definition cpp_decl :: \<open>field \<Rightarrow> string\<close> where
  \<open>cpp_decl f =
     (case descr f of
        None \<Rightarrow> ''    '' @ cpp_repr (dtype f) @ '' '' @ name f @ '';''
      | Some d \<Rightarrow>
          (if d \<noteq> [] \<and> comment_style f = ''above''
           then ''    // '' @ d @ ''\<newline>    '' @ cpp_repr (dtype f) @ '' '' @ name f @ '';''
           else if d \<noteq> [] \<and> comment_style f = ''inline''
           then ''    '' @ cpp_repr (dtype f) @ '' '' @ name f @ ''; // '' @ d
           else ''    '' @ cpp_repr (dtype f) @ '' '' @ name f @ '';''))\<close>

section \<open>The read and write routine generators\<close>

text \<open>
  The first loop of \<^verbatim>\<open>gen_stream_read\<close> and of \<^verbatim>\<open>gen_stream_write\<close>: the first
  field wider than the bus raises.
\<close>

definition too_wide :: \<open>field \<Rightarrow> int \<Rightarrow> error\<close> where
  \<open>too_wide f bus_width =
     ValueError (''Field '' @ [CHR 0x27] @ name f @ [CHR 0x27] @ '' has width ''
                 @ str_int (width (dtype f)) @ '' bits, ''
                 @ ''which exceeds bus width '' @ str_int bus_width @ '' bits'')\<close>

fun check_widths :: \<open>field list \<Rightarrow> int \<Rightarrow> error option\<close> where
  \<open>check_widths [] bus_width = None\<close>
| \<open>check_widths (f # fs) bus_width =
     (if width (dtype f) > bus_width then Some (too_wide f bus_width)
      else check_widths fs bus_width)\<close>

text \<open>
  The local variables of the packing loops: the bit index in the current word, the
  number of words opened, the name of the current word variable (\<^verbatim>\<open>None\<close> before the
  first word) and the lines emitted so far.
\<close>

record gen_state =
  ind0 :: int
  word_count :: nat
  word_var :: \<open>string option\<close>
  lines :: \<open>string list\<close>

definition read_header :: \<open>string \<Rightarrow> int \<Rightarrow> string list\<close> where
  \<open>read_header sname bus_width =
     [''    template<typename Tstream>'',
      ''    bool stream_read_'' @ str_int bus_width @ ''(hls::stream<Tstream>& in) {'',
      ''        constexpr int bus_bits = decltype(Tstream::data)::width;'',
      ''        static_assert(bus_bits == '' @ str_int bus_width @ '', ''
        @ ''"Only '' @ str_int bus_width @ ''-bit stream supported in '' @ sname
        @ ''::stream_read_'' @ str_int bus_width @ ''");'',
      []]\<close>

text \<open>
  The field loop of \<^verbatim>\<open>gen_stream_read\<close>. \<^verbatim>\<open>word_var + ".data"\<close> on \<^verbatim>\<open>None\<close> would
  be a \<^verbatim>\<open>TypeError\<close>; the branch is kept although the test before it excludes it.
\<close>

fun read_fields :: \<open>int \<Rightarrow> field list \<Rightarrow> gen_state \<Rightarrow> error + gen_state\<close> where
  \<open>read_fields bus_width [] s = Inr s\<close>
| \<open>read_fields bus_width (f # fs) s =
     (let bw = width (dtype f);
          s1 = (if ind0 s + bw > bus_width \<or> word_var s = None
                then (let wv = ''w'' @ str_nat (word_count s)
                      in s\<lparr>word_var := Some wv,
                           lines := lines s @ [''        Tstream '' @ wv @ '' = in.read();''],
                           ind0 := 0,
                           word_count := word_count s + 1\<rparr>)
                else s)
      in case word_var s1 of
           None \<Rightarrow> Inl TypeError
         | Some wv \<Rightarrow>
             (case read_expr (dtype f) (wv @ ''.data'') bus_width (ind0 s1) of
                Inl e \<Rightarrow> Inl e
              | Inr expr \<Rightarrow>
                  read_fields bus_width fs
                    (s1\<lparr>lines := lines s1 @ [''        '' @ name f @ '' = '' @ expr @ '';''],
                        ind0 := ind0 s1 + bw\<rparr>)))\<close>

text \<open>\<^verbatim>\<open>f"{word_var}"\<close>: the string itself, or \<^verbatim>\<open>None\<close> printed.\<close>

definition str_opt :: \<open>string option \<Rightarrow> string\<close> where
  \<open>str_opt v = (case v of None \<Rightarrow> ''None'' | Some s \<Rightarrow> s)\<close>

definition gen_stream_read :: \<open>string \<Rightarrow> field list \<Rightarrow> int \<Rightarrow> error + string\<close> where
  \<open>gen_stream_read sname flds bus_width =
     (case check_widths flds bus_width of
        Some e \<Rightarrow> Inl e
      | None \<Rightarrow>
          (case read_fields bus_width flds
                  \<lparr>ind0 = 0, word_count = 0, word_var = None,
                   lines = read_header sname bus_width\<rparr> of
             Inl e \<Rightarrow> Inl e
           | Inr s \<Rightarrow>
               Inr (join ''\<newline>''
                      (lines s @ [''        bool tlast = '' @ str_opt (word_var s) @ ''.last;'',
                                  [],
                                  ''        return tlast;'',
                                  ''    }'']))))\<close>

definition write_header :: \<open>string \<Rightarrow> int \<Rightarrow> string list\<close> where
  \<open>write_header sname bus_width =
     [''    template<typename Tstream>'',
      ''    void stream_write_'' @ str_int bus_width
        @ ''(hls::stream<Tstream>& out, bool tlast = true) const {'',
      ''        constexpr int bus_bits = decltype(Tstream::data)::width;'',
      ''        static_assert(bus_bits == '' @ str_int bus_width @ '', ''
        @ ''"Only '' @ str_int bus_width @ ''-bit stream supported in '' @ sname
        @ ''::stream_write_'' @ str_int bus_width @ ''");'',
      []]\<close>

text \<open>
  The first pass of \<^verbatim>\<open>gen_stream_write\<close>, on \<^verbatim>\<open>(temp_ind, temp_count)\<close>; its
  \<^verbatim>\<open>temp_count\<close> is \<^verbatim>\<open>total_words\<close>.
\<close>

fun first_pass :: \<open>int \<Rightarrow> field list \<Rightarrow> int \<times> nat \<Rightarrow> int \<times> nat\<close> where
  \<open>first_pass bus_width [] (temp_ind, temp_count) = (temp_ind, temp_count)\<close>
| \<open>first_pass bus_width (f # fs) (temp_ind, temp_count) =
     (let bw = width (dtype f)
      in if temp_ind + bw > bus_width \<or> temp_count = 0
         then first_pass bus_width fs (bw, temp_count + 1)
         else first_pass bus_width fs (temp_ind + bw, temp_count))\<close>

definition total_words :: \<open>int \<Rightarrow> field list \<Rightarrow> nat\<close> where
  \<open>total_words bus_width flds = snd (first_pass bus_width flds (0, 0))\<close>

text \<open>
  The second pass. \<^verbatim>\<open>is_last\<close> is computed by the source and never read; it is kept
  as the unused binding it is.
\<close>

fun write_fields :: \<open>int \<Rightarrow> nat \<Rightarrow> field list \<Rightarrow> gen_state \<Rightarrow> error + gen_state\<close> where
  \<open>write_fields bus_width tot [] s = Inr s\<close>
| \<open>write_fields bus_width tot (f # fs) s =
     (let bw = width (dtype f);
          s1 = (if ind0 s + bw > bus_width \<or> word_var s = None
                then
                  (let s0 = (case word_var s of
                               Some pv \<Rightarrow>
                                 (let is_last = (word_count s = tot)
                                  in s\<lparr>lines := lines s @ [''        '' @ pv @ ''.last = false;'',
                                                          ''        out.write('' @ pv @ '');'',
                                                          []]\<rparr>)
                             | None \<Rightarrow> s);
                       wc = word_count s0 + 1;
                       wv = ''w'' @ str_nat (wc - 1)
                   in s0\<lparr>word_count := wc,
                         word_var := Some wv,
                         lines := lines s0 @ [''        Tstream '' @ wv @ '';'',
                                              ''        '' @ wv @ ''.data = 0;'',
                                              ''        '' @ wv @ ''.keep = -1;'',
                                              ''        '' @ wv @ ''.strb = -1;''],
                         ind0 := 0\<rparr>)
                else s)
      in case word_var s1 of
           None \<Rightarrow> Inl TypeError
         | Some wv \<Rightarrow>
             (case write_expr (dtype f) (name f) (wv @ ''.data'') bus_width (ind0 s1) of
                Inl e \<Rightarrow> Inl e
              | Inr write_stmt \<Rightarrow>
                  write_fields bus_width tot fs
                    (s1\<lparr>lines := lines s1 @ [''        '' @ write_stmt],
                        ind0 := ind0 s1 + bw\<rparr>)))\<close>

definition gen_stream_write :: \<open>string \<Rightarrow> field list \<Rightarrow> int \<Rightarrow> error + string\<close> where
  \<open>gen_stream_write sname flds bus_width =
     (case check_widths flds bus_width of
        Some e \<Rightarrow> Inl e
      | None \<Rightarrow>
          (case write_fields bus_width (total_words bus_width flds) flds
                  \<lparr>ind0 = 0, word_count = 0, word_var = None,
                   lines = write_header sname bus_width\<rparr> of
             Inl e \<Rightarrow> Inl e
           | Inr s \<Rightarrow>
               Inr (join ''\<newline>''
                      (lines s
                       @ (case word_var s of
                            Some wv \<Rightarrow> [''        '' @ wv @ ''.last = tlast;'',
                                        ''        out.write('' @ wv @ '');'']
                          | None \<Rightarrow> [])
                       @ [''    }'']))))\<close>

section \<open>Dispatchers and derived operations\<close>

text \<open>
  The \<^verbatim>\<open>enumerate\<close> loops of \<^verbatim>\<open>gen_stream_dispatch\<close>: one branch header and one
  call per configured width; \<open>call\<close> is the line that calls the routine of a width.
\<close>

fun dispatch_cases :: \<open>(int \<Rightarrow> string) \<Rightarrow> nat \<Rightarrow> int list \<Rightarrow> string list\<close> where
  \<open>dispatch_cases call i [] = []\<close>
| \<open>dispatch_cases call i (w # ws) =
     [(if i = 0 then ''        if constexpr (bus_bits == '' @ str_int w @ '') {''
       else ''        } else if constexpr (bus_bits == '' @ str_int w @ '') {''),
      call w]
     @ dispatch_cases call (i + 1) ws\<close>

text \<open>
  \<^verbatim>\<open>gen_stream_dispatch\<close>, on the record's name and its \<^verbatim>\<open>stream_bus_widths\<close>. The
  result is the pair (write dispatcher, read dispatcher), in this order.
\<close>

definition gen_stream_dispatch :: \<open>string \<Rightarrow> int list \<Rightarrow> string \<times> string\<close> where
  \<open>gen_stream_dispatch sname stream_bus_widths =
     (case stream_bus_widths of
        [] \<Rightarrow>
          (let write_lines =
                 [''    template<typename Tstream>'',
                  ''    void stream_write(hls::stream<Tstream>& out, bool tlast = true) const {'',
                  ''        static_assert(sizeof(Tstream) == 0, '',
                  ''                     "No stream bus widths configured for '' @ sname @ ''");'',
                  ''    }''];
               read_lines =
                 [''    template<typename Tstream>'',
                  ''    bool stream_read(hls::stream<Tstream>& in) {'',
                  ''        static_assert(sizeof(Tstream) == 0, '',
                  ''                     "No stream bus widths configured for '' @ sname @ ''");'',
                  ''        return false;'',
                  ''    }'']
           in (join ''\<newline>'' write_lines, join ''\<newline>'' read_lines))
      | w0 # ws \<Rightarrow>
          (let widths_str = join '', '' (map str_int stream_bus_widths);
               write_lines =
                 [''    template<typename Tstream>'',
                  ''    void stream_write(hls::stream<Tstream>& out, bool tlast = true) const {'',
                  ''        constexpr int bus_bits = decltype(Tstream::data)::width;'']
                 @ dispatch_cases
                     (\<lambda>w. ''            stream_write_'' @ str_int w @ ''(out, tlast);'')
                     0 stream_bus_widths
                 @ [''        } else {'',
                    ''            static_assert(bus_bits == '' @ str_int w0 @ '', '',
                    ''                         "Unsupported bus width. Supported widths: ''
                      @ widths_str @ ''");'',
                    ''        }'',
                    ''    }''];
               read_lines =
                 [''    template<typename Tstream>'',
                  ''    bool stream_read(hls::stream<Tstream>& in) {'',
                  ''        constexpr int bus_bits = decltype(Tstream::data)::width;'']
                 @ dispatch_cases
                     (\<lambda>w. ''            return stream_read_'' @ str_int w @ ''(in);'')
                     0 stream_bus_widths
                 @ [''        } else {'',
                    ''            static_assert(bus_bits == '' @ str_int w0 @ '', '',
                    ''                         "Unsupported bus width. Supported widths: ''
                      @ widths_str @ ''");'',
                    ''            return false;'',
                    ''        }'',
                    ''    }'']
           in (join ''\<newline>'' write_lines, join ''\<newline>'' read_lines)))\<close>

definition gen_equality_operator :: \<open>string \<Rightarrow> field list \<Rightarrow> string\<close> where
  \<open>gen_equality_operator sname flds =
     (let comparisons = map (\<lambda>f. ''(this->'' @ name f @ '' == other.'' @ name f @ '')'') flds
      in join ''\<newline>''
           [''    bool operator==(const '' @ sname @ ''& other) const {'',
            ''        return '' @ join '' && '' comparisons @ '';'',
            ''    }''])\<close>

fun string_method_lines :: \<open>nat \<Rightarrow> nat \<Rightarrow> field list \<Rightarrow> string list\<close> where
  \<open>string_method_lines n i [] = []\<close>
| \<open>string_method_lines n i (f # fs) =
     (if i < n - 1
      then ''        oss << "'' @ name f @ '': " << '' @ name f @ '' << ", ";''
      else ''        oss << "'' @ name f @ '': " << '' @ name f @ '';'')
     # string_method_lines n (i + 1) fs\<close>

definition gen_string_method :: \<open>field list \<Rightarrow> string\<close> where
  \<open>gen_string_method flds =
     join ''\<newline>''
       ([''    std::string to_string() const {'',
         ''        std::ostringstream oss;'',
         ''        oss << "{";'']
        @ string_method_lines (length flds) 0 flds
        @ [''        oss << "}";'',
           ''        return oss.str();'',
           ''    }''])\<close>

section \<open>The include file\<close>

text \<open>
  \<^verbatim>\<open>str.strip()\<close> leaves a non-empty string exactly when some character is not
  whitespace (for the one-byte characters: tab to carriage return, the four
  separators 0x1C to 0x1F, and the space).
\<close>

definition is_space :: \<open>char \<Rightarrow> bool\<close> where
  \<open>is_space c =
     (let n = (of_char c :: nat) in (9 \<le> n \<and> n \<le> 13) \<or> (28 \<le> n \<and> n \<le> 32))\<close>

definition strip_nonempty :: \<open>string \<Rightarrow> bool\<close> where
  \<open>strip_nonempty s = (\<exists>c \<in> set s. \<not> is_space c)\<close>

text \<open>
  The first field loop of \<^verbatim>\<open>gen_include\<close>: one preamble, and one empty line, for
  every field whose type has a preamble that is not blank.
\<close>

fun preamble_lines :: \<open>field list \<Rightarrow> string list\<close> where
  \<open>preamble_lines [] = []\<close>
| \<open>preamble_lines (f # fs) =
     (case preamble (dtype f) of
        None \<Rightarrow> preamble_lines fs
      | Some p \<Rightarrow>
          (if strip_nonempty p then [''    '' @ p, []] @ preamble_lines fs
           else preamble_lines fs))\<close>

text \<open>The loop over the bus widths: read routine, empty line, write routine, empty line.\<close>

fun stream_lines :: \<open>string \<Rightarrow> field list \<Rightarrow> int list \<Rightarrow> error + string list\<close> where
  \<open>stream_lines sname flds [] = Inr []\<close>
| \<open>stream_lines sname flds (bus_width # ws) =
     (case gen_stream_read sname flds bus_width of
        Inl e \<Rightarrow> Inl e
      | Inr r \<Rightarrow>
          (case gen_stream_write sname flds bus_width of
             Inl e \<Rightarrow> Inl e
           | Inr w \<Rightarrow>
               (case stream_lines sname flds ws of
                  Inl e \<Rightarrow> Inl e
                | Inr rest \<Rightarrow> Inr ([r, [], w, []] @ rest))))\<close>

text \<open>
  \<^verbatim>\<open>str.upper()\<close>, \<^verbatim>\<open>str.lower()\<close> on one-byte letters, and the replacement of one
  character by another.
\<close>

definition upper_char :: \<open>char \<Rightarrow> char\<close> where
  \<open>upper_char c =
     (let n = (of_char c :: nat) in if 97 \<le> n \<and> n \<le> 122 then char_of (n - 32) else c)\<close>

definition lower_char :: \<open>char \<Rightarrow> char\<close> where
  \<open>lower_char c =
     (let n = (of_char c :: nat) in if 65 \<le> n \<and> n \<le> 90 then char_of (n + 32) else c)\<close>

definition replace_char :: \<open>char \<Rightarrow> char \<Rightarrow> string \<Rightarrow> string\<close> where
  \<open>replace_char a b s = map (\<lambda>c. if c = a then b else c) s\<close>

definition guard_name :: \<open>string \<Rightarrow> string\<close> where
  \<open>guard_name include_file =
     replace_char CHR ''-'' CHR ''_'' (replace_char CHR ''.'' CHR ''_'' (map upper_char include_file))\<close>

text \<open>
  \<^verbatim>\<open>gen_include\<close>, up to the file system: the list \<^verbatim>\<open>lines\<close> that is joined and
  written to the file. The bus widths given here are also the ones remembered in
  \<^verbatim>\<open>stream_bus_widths\<close> and read back by the dispatcher. The dispatchers are appended
  in the order the source names them: the first component of the pair, then the second.
\<close>

definition gen_include_lines ::
  \<open>string \<Rightarrow> field list \<Rightarrow> string option \<Rightarrow> int list option \<Rightarrow> error + string list\<close> where
  \<open>gen_include_lines sname flds include_file bus_widths =
     (let include_file' = (case include_file of
                             None \<Rightarrow> map lower_char sname @ ''.h''
                           | Some x \<Rightarrow> x);
          bus_widths' = (case bus_widths of None \<Rightarrow> [32] | Some ws \<Rightarrow> ws);
          guard = guard_name include_file';
          lines0 =
            [''#ifndef '' @ guard,
             ''#define '' @ guard,
             [],
             ''#include <hls_stream.h>'',
             ''#include <ap_int.h>'',
             ''#include <ap_axi_sdata.h>'',
             ''#include <string>'',
             ''#include <sstream>'',
             [],
             ''class '' @ sname @ '' {'',
             ''public:'',
             []]
            @ preamble_lines flds
            @ map cpp_decl flds
            @ [[]]
      in case stream_lines sname flds bus_widths' of
           Inl e \<Rightarrow> Inl e
         | Inr streams \<Rightarrow>
             (let (stream_write_dispatch, stream_read_dispatch) =
                    gen_stream_dispatch sname bus_widths'
              in Inr (lines0 @ streams
                      @ [stream_write_dispatch, [],
                         stream_read_dispatch, [],
                         gen_equality_operator sname flds, [],
                         gen_string_method flds, [],
                         ''};'', [],
                         ''#endif // '' @ guard, []])))\<close>

definition gen_include_text ::
  \<open>string \<Rightarrow> field list \<Rightarrow> string option \<Rightarrow> int list option \<Rightarrow> error + string\<close> where
  \<open>gen_include_text sname flds include_file bus_widths =
     (case gen_include_lines sname flds include_file bus_widths of
        Inl e \<Rightarrow> Inl e
      | Inr ls \<Rightarrow> Inr (join ''\<newline>'' ls))\<close>

section \<open>The specification's notions\<close>

text \<open>
  The definitions of this section are not taken from the source. They state, in the
  words of the specification, what the theorems below compare the source with.
\<close>

text \<open>
  The auto-counter of an enum: a bare label takes the next value, a pair
  (label, value) resets the counter to value + 1; the counter starts at 0.
\<close>

definition counter_step :: \<open>int \<Rightarrow> entry \<Rightarrow> int\<close> where
  \<open>counter_step c e = (case e of Label l \<Rightarrow> c + 1 | Pair l v \<Rightarrow> v + 1 | Other \<Rightarrow> c)\<close>

definition next_auto_value :: \<open>entry list \<Rightarrow> int\<close> where
  \<open>next_auto_value es = foldl counter_step 0 es\<close>

text \<open>
  The float conversions as the specification describes them: the decode takes the
  32-bit slice \<open>[i + 31, i]\<close> of the word into the unsigned member of a union and
  yields the float member; the encode stores the float, and writes the unsigned
  member into the slice. \<open>float_decode_whole\<close> is the decode that takes the whole
  word instead of a slice.
\<close>

definition float_decode_slice :: \<open>string \<Rightarrow> int \<Rightarrow> string\<close> where
  \<open>float_decode_slice word_name i =
     ''union { float f; ap_uint<32> u; } conv;\<newline>''
     @ ''        conv.u = '' @ range_expr word_name (i + 31) i @ '';\<newline>''
     @ ''        /* assign to variable */ conv.f''\<close>

definition float_decode_whole :: \<open>string \<Rightarrow> string\<close> where
  \<open>float_decode_whole word_name =
     ''union { float f; ap_uint<32> u; } conv;\<newline>''
     @ ''        conv.u = '' @ word_name @ '';\<newline>''
     @ ''        /* assign to variable */ conv.f''\<close>

definition float_encode_slice :: \<open>string \<Rightarrow> string \<Rightarrow> int \<Rightarrow> string\<close> where
  \<open>float_encode_slice var_name word_name i =
     ''union { float f; ap_uint<32> u; } conv;\<newline>''
     @ ''        conv.f = '' @ var_name @ '';\<newline>''
     @ ''        '' @ range_expr word_name (i + 31) i @ '' = conv.u;''\<close>

text \<open>A field without a description, for the concrete layouts of the examples.\<close>

definition fld :: \<open>string \<Rightarrow> dtype \<Rightarrow> field\<close> where
  \<open>fld n t = \<lparr>name = n, dtype = t, descr = None, comment_style = ''inline''\<rparr>\<close>

text \<open>
  The section of an auxiliary declaration in the include file: the declaration,
  indented as the first field loop of \<^verbatim>\<open>gen_include\<close> indents it.
\<close>

definition aux_section :: \<open>string \<Rightarrow> string\<close> where
  \<open>aux_section p = ''    '' @ p\<close>

text \<open>The enum type of the examples, and its declaration.\<close>

definition mode_enum :: dtype where
  \<open>mode_enum = EnumType ''Mode'' [(''A'', 0), (''B'', 1)] 1\<close>

definition mode_decl :: string where
  \<open>mode_decl = ''enum Mode : unsigned int {\<newline>        A = 0,\<newline>        B = 1\<newline>    };''\<close>

subsection \<open>The word packer and the code emitter\<close>

text \<open>
  A placement gives a field the index of its word and its bit offset in that word.
  The packer runs once over the fields, in declaration order. \<open>opn\<close> says whether a
  word is open, \<open>k\<close> counts the words opened so far and \<open>off\<close> is the running offset
  in the open word. A field goes to the running offset of the open word
  (word \<open>k - 1\<close>) when a word is open and \<open>off + width \<le> W\<close>; otherwise word \<open>k\<close> is
  opened and the field goes to its offset 0.
\<close>

type_synonym placement = \<open>field \<times> nat \<times> int\<close>

definition fwidth :: \<open>field \<Rightarrow> int\<close> where
  \<open>fwidth f = width (dtype f)\<close>

fun pack_from :: \<open>int \<Rightarrow> bool \<Rightarrow> nat \<Rightarrow> int \<Rightarrow> field list \<Rightarrow> placement list\<close> where
  \<open>pack_from W opn k off [] = []\<close>
| \<open>pack_from W opn k off (f # fs) =
     (if opn \<and> off + fwidth f \<le> W
      then (f, k - 1, off) # pack_from W True k (off + fwidth f) fs
      else (f, k, 0) # pack_from W True (k + 1) (fwidth f) fs)\<close>

definition pack :: \<open>int \<Rightarrow> field list \<Rightarrow> placement list\<close> where
  \<open>pack W fs = pack_from W False 0 0 fs\<close>

text \<open>
  Two placements are separate when they lie in different words or their bit ranges
  \<open>[off, off + width - 1]\<close> do not meet; a placement lies within its word when its
  bit range is inside \<open>[0, W - 1]\<close>.
\<close>

fun separate :: \<open>placement \<Rightarrow> placement \<Rightarrow> bool\<close> where
  \<open>separate (f, k, off) (g, k', off') =
     (k \<noteq> k' \<or> off + fwidth f \<le> off' \<or> off' + fwidth g \<le> off)\<close>

text \<open>
  \<open>before p q\<close>: \<open>p\<close> lies in an earlier word than \<open>q\<close>, or in the same word and
  wholly below it.
\<close>

definition before :: \<open>placement \<Rightarrow> placement \<Rightarrow> bool\<close> where
  \<open>before p q =
     (case p of (f, k, off) \<Rightarrow> case q of (g, k', off') \<Rightarrow>
        k < k' \<or> (k = k' \<and> off + fwidth f \<le> off'))\<close>

fun within_word :: \<open>int \<Rightarrow> placement \<Rightarrow> bool\<close> where
  \<open>within_word W (f, k, off) = (0 \<le> off \<and> off + fwidth f \<le> W)\<close>

text \<open>
  The word of the last placement (or \<open>prev\<close>, when there is no placement), and the
  number of words of a layout: one more than the index of its last word.
\<close>

fun final_word :: \<open>nat option \<Rightarrow> placement list \<Rightarrow> nat option\<close> where
  \<open>final_word prev [] = prev\<close>
| \<open>final_word prev ((f, k, off) # ps) = final_word (Some k) ps\<close>

definition words_upto :: \<open>nat option \<Rightarrow> nat\<close> where
  \<open>words_upto w = (case w of None \<Rightarrow> 0 | Some k \<Rightarrow> Suc k)\<close>

definition n_words :: \<open>placement list \<Rightarrow> nat\<close> where
  \<open>n_words ps = words_upto (final_word None ps)\<close>

text \<open>
  The code emitter, given the packer's result. The word variable of word \<open>k\<close> is
  \<open>wk\<close>; the text of a decode or encode is the one the type descriptor returns (empty
  if it raises). The read routine fetches a word when the word index changes, then
  decodes each of its fields; it reports the end-of-message flag of the last word.
  The write routine, when the word index changes, closes the previous word with
  \<^verbatim>\<open>last = false\<close> and emits it, opens the next one zeroed, and encodes each field;
  the last word is closed with the caller's flag.
\<close>

definition wname :: \<open>nat \<Rightarrow> string\<close> where
  \<open>wname k = ''w'' @ str_nat k\<close>

definition text_of :: \<open>error + string \<Rightarrow> string\<close> where
  \<open>text_of r = (case r of Inl e \<Rightarrow> [] | Inr s \<Rightarrow> s)\<close>

definition prev_word :: \<open>bool \<Rightarrow> nat \<Rightarrow> nat option\<close> where
  \<open>prev_word opn k = (if opn then Some (k - 1) else None)\<close>

definition decode_line :: \<open>int \<Rightarrow> placement \<Rightarrow> string\<close> where
  \<open>decode_line W p =
     (case p of (f, k, off) \<Rightarrow>
        ''        '' @ name f @ '' = ''
        @ text_of (read_expr (dtype f) (wname k @ ''.data'') W off) @ '';'')\<close>

definition encode_line :: \<open>int \<Rightarrow> placement \<Rightarrow> string\<close> where
  \<open>encode_line W p =
     (case p of (f, k, off) \<Rightarrow>
        ''        '' @ text_of (write_expr (dtype f) (name f) (wname k @ ''.data'') W off))\<close>

definition open_lines :: \<open>nat \<Rightarrow> string list\<close> where
  \<open>open_lines k =
     [''        Tstream '' @ wname k @ '';'',
      ''        '' @ wname k @ ''.data = 0;'',
      ''        '' @ wname k @ ''.keep = -1;'',
      ''        '' @ wname k @ ''.strb = -1;'']\<close>

definition close_lines :: \<open>nat \<Rightarrow> string \<Rightarrow> string list\<close> where
  \<open>close_lines k flag =
     [''        '' @ wname k @ ''.last = '' @ flag @ '';'',
      ''        out.write('' @ wname k @ '');'']\<close>

fun read_body :: \<open>int \<Rightarrow> nat option \<Rightarrow> placement list \<Rightarrow> string list\<close> where
  \<open>read_body W prev [] = []\<close>
| \<open>read_body W prev ((f, k, off) # ps) =
     (if prev = Some k then [] else [''        Tstream '' @ wname k @ '' = in.read();''])
     @ [decode_line W (f, k, off)]
     @ read_body W (Some k) ps\<close>

fun write_body :: \<open>int \<Rightarrow> nat option \<Rightarrow> placement list \<Rightarrow> string list\<close> where
  \<open>write_body W prev [] = []\<close>
| \<open>write_body W prev ((f, k, off) # ps) =
     (if prev = Some k then []
      else (case prev of None \<Rightarrow> [] | Some j \<Rightarrow> close_lines j ''false'' @ [[]])
           @ open_lines k)
     @ [encode_line W (f, k, off)]
     @ write_body W (Some k) ps\<close>

definition emit_read :: \<open>string \<Rightarrow> int \<Rightarrow> placement list \<Rightarrow> string\<close> where
  \<open>emit_read sname W ps =
     join ''\<newline>''
       (read_header sname W @ read_body W None ps
        @ [''        bool tlast = '' @ str_opt (map_option wname (final_word None ps)) @ ''.last;'',
           [],
           ''        return tlast;'',
           ''    }''])\<close>

definition emit_write :: \<open>string \<Rightarrow> int \<Rightarrow> placement list \<Rightarrow> string\<close> where
  \<open>emit_write sname W ps =
     join ''\<newline>''
       (write_header sname W @ write_body W None ps
        @ (case final_word None ps of None \<Rightarrow> [] | Some k \<Rightarrow> close_lines k ''tlast'')
        @ [''    }''])\<close>

subsection \<open>The write routine, word by word\<close>

text \<open>
  The words of a layout, each with its fields and their offsets: \<open>cur\<close> holds the
  fields already in the open word and \<open>off\<close> is its running offset. The block of a
  word declares it, sets its data to zero, encodes its fields, sets its
  end-of-message flag and emits it; the flag is \<^verbatim>\<open>false\<close> for every word but the
  last, which takes the caller's \<^verbatim>\<open>tlast\<close>, and an empty line follows every word
  but the last.
\<close>

fun group :: \<open>int \<Rightarrow> int \<Rightarrow> (field \<times> int) list \<Rightarrow> field list \<Rightarrow> (field \<times> int) list list\<close> where
  \<open>group W off cur [] = [cur]\<close>
| \<open>group W off cur (f # fs) =
     (if off + fwidth f \<le> W
      then group W (off + fwidth f) (cur @ [(f, off)]) fs
      else cur # group W (fwidth f) [(f, 0)] fs)\<close>

definition words_of :: \<open>int \<Rightarrow> field list \<Rightarrow> (field \<times> int) list list\<close> where
  \<open>words_of W fs =
     (case fs of [] \<Rightarrow> [] | f # fs' \<Rightarrow> group W (fwidth f) [(f, 0)] fs')\<close>

definition word_block :: \<open>int \<Rightarrow> string \<Rightarrow> nat \<Rightarrow> (field \<times> int) list \<Rightarrow> string list\<close> where
  \<open>word_block W flag k word =
     open_lines k
     @ map (\<lambda>(f, off). encode_line W (f, k, off)) word
     @ close_lines k flag\<close>

fun write_words :: \<open>int \<Rightarrow> nat \<Rightarrow> (field \<times> int) list list \<Rightarrow> string list\<close> where
  \<open>write_words W k [] = []\<close>
| \<open>write_words W k [w] = word_block W ''tlast'' k w\<close>
| \<open>write_words W k (w # w' # ws) =
     word_block W ''false'' k w @ [[]] @ write_words W (Suc k) (w' # ws)\<close>

section \<open>Enum widths\<close>

lemma bits_for_ceillog2: \<open>bits_for n = ceillog2 n\<close>
proof (induction n rule: bits_for.induct)
  case (1 n)
  show ?case
  proof (cases \<open>n \<le> 1\<close>)
    case True
    then show ?thesis by (simp add: bits_for.simps [of n])
  next
    case False
    with 1 have \<open>bits_for ((n + 1) div 2) = ceillog2 ((n + 1) div 2)\<close> by simp
    with False show ?thesis
      by (simp add: bits_for.simps [of n] ceillog2_rec [of n])
  qed
qed

lemma bits_for_ceiling_log:
  \<open>0 < n \<Longrightarrow> int (bits_for n) = \<lceil>log 2 (real n)\<rceil>\<close>
proof -
  assume pos: \<open>0 < n\<close>
  then have \<open>1 \<le> real n\<close> by simp
  then have \<open>0 \<le> log 2 (real n)\<close> by simp
  then have \<open>0 \<le> \<lceil>log 2 (real n)\<rceil>\<close> by linarith
  with pos show ?thesis by (simp add: bits_for_ceillog2 ceillog2_def)
qed

lemma enum_entries_counter:
  \<open>enum_entries es acc c = Inr (ents, c') \<Longrightarrow> c' = foldl counter_step c es\<close>
  by (induction es acc c rule: enum_entries.induct) (simp_all add: counter_step_def)

lemma EnumType_init_default:
  assumes \<open>EnumType_init nm es None = Inr t\<close>
  shows \<open>0 < next_auto_value es \<and> width t = max 1 (int (bits_for (nat (next_auto_value es))))\<close>
proof -
  from assms obtain ents c where ee: \<open>enum_entries es [] 0 = Inr (ents, c)\<close>
    by (auto simp: EnumType_init_def split: sum.splits)
  then have c: \<open>c = next_auto_value es\<close>
    by (simp add: next_auto_value_def enum_entries_counter)
  from assms ee show ?thesis
    by (auto simp: EnumType_init_def ceil_log2_def c split: sum.splits if_splits)
qed

text \<open>
  Claim C4. Without an explicit width, an enum that is constructed has the width
  \<open>max 1 \<lceil>log\<^sub>2 c\<rceil>\<close>, where \<open>c\<close> is the auto-counter after all entries. For the
  entries A, B, C the counter ends at 3 and the width is 2; for A, (B, 10), C the label
  C takes the value 11, the counter ends at 12 and the width is 4.
\<close>

theorem enum_default_width:
  \<open>(EnumType_init nm es None = Inr t \<longrightarrow>
      width t = max 1 \<lceil>log 2 (real_of_int (next_auto_value es))\<rceil>)
   \<and> next_auto_value [Label ''A'', Label ''B'', Label ''C''] = 3
   \<and> EnumType_init nm [Label ''A'', Label ''B'', Label ''C''] None
       = Inr (EnumType nm [(''A'', 0), (''B'', 1), (''C'', 2)] 2)
   \<and> next_auto_value [Label ''A'', Pair ''B'' 10, Label ''C''] = 12
   \<and> EnumType_init nm [Label ''A'', Pair ''B'' 10, Label ''C''] None
       = Inr (EnumType nm [(''A'', 0), (''B'', 10), (''C'', 11)] 4)\<close>
proof -
  have gen: \<open>EnumType_init nm es None = Inr t \<longrightarrow>
      width t = max 1 \<lceil>log 2 (real_of_int (next_auto_value es))\<rceil>\<close>
  proof
    assume a: \<open>EnumType_init nm es None = Inr t\<close>
    from EnumType_init_default [OF a]
    have pos: \<open>0 < next_auto_value es\<close>
      and w: \<open>width t = max 1 (int (bits_for (nat (next_auto_value es))))\<close> by simp_all
    from pos have \<open>0 < nat (next_auto_value es)\<close> by simp
    from bits_for_ceiling_log [OF this] pos
    have \<open>int (bits_for (nat (next_auto_value es))) = \<lceil>log 2 (real_of_int (next_auto_value es))\<rceil>\<close>
      by simp
    with w show \<open>width t = max 1 \<lceil>log 2 (real_of_int (next_auto_value es))\<rceil>\<close> by simp
  qed
  have b3: \<open>bits_for 3 = 2\<close> by code_simp
  have b12: \<open>bits_for 12 = 4\<close> by code_simp
  have e1: \<open>EnumType_init nm [Label ''A'', Label ''B'', Label ''C''] None
       = Inr (EnumType nm [(''A'', 0), (''B'', 1), (''C'', 2)] 2)\<close>
    by (simp add: EnumType_init_def ceil_log2_def b3)
  have e2: \<open>EnumType_init nm [Label ''A'', Pair ''B'' 10, Label ''C''] None
       = Inr (EnumType nm [(''A'', 0), (''B'', 10), (''C'', 11)] 4)\<close>
    by (simp add: EnumType_init_def ceil_log2_def b12)
  show ?thesis using gen e1 e2 by (simp add: next_auto_value_def counter_step_def)
qed

theorem enum_default_width_witness:
  \<open>EnumType_init ''Mode'' [Label ''A'', Label ''B'', Label ''C''] None
     = Inr (EnumType ''Mode'' [(''A'', 0), (''B'', 1), (''C'', 2)] 2)
   \<and> max 1 \<lceil>log 2 (real_of_int (next_auto_value [Label ''A'', Label ''B'', Label ''C'']))\<rceil> = 2\<close>
proof -
  note T = enum_default_width [of \<open>''Mode''\<close> \<open>[Label ''A'', Label ''B'', Label ''C'']\<close>
      \<open>EnumType ''Mode'' [(''A'', 0), (''B'', 1), (''C'', 2)] 2\<close>]
  from T have e: \<open>EnumType_init ''Mode'' [Label ''A'', Label ''B'', Label ''C''] None
     = Inr (EnumType ''Mode'' [(''A'', 0), (''B'', 1), (''C'', 2)] 2)\<close> by blast
  from T e have \<open>width (EnumType ''Mode'' [(''A'', 0), (''B'', 1), (''C'', 2)] 2)
     = max 1 \<lceil>log 2 (real_of_int (next_auto_value [Label ''A'', Label ''B'', Label ''C'']))\<rceil>\<close>
    by blast
  then have \<open>max 1 \<lceil>log 2 (real_of_int (next_auto_value [Label ''A'', Label ''B'', Label ''C'']))\<rceil> = 2\<close>
    by simp
  with e show ?thesis by blast
qed

text \<open>
  Claim C10. An enum built from no entries and without a width is never constructed:
  the counter is still 0, its logarithm is undefined, and the constructor raises the
  \<^verbatim>\<open>math domain error\<close>.
\<close>

theorem enum_empty_fails:
  \<open>EnumType_init nm [] None = Inl (ValueError ''math domain error'')\<close>
  by (simp add: EnumType_init_def ceil_log2_def)

section \<open>Decode and encode of one field\<close>

text \<open>
  Claim C5. For every type descriptor, word width \<open>w\<close> and bit offset \<open>i\<close>,
  \<^verbatim>\<open>read_expr\<close> and \<^verbatim>\<open>write_expr\<close> raise exactly when \<open>i + width > w\<close>; otherwise
  they return their text.
\<close>

theorem expr_overflow_iff:
  \<open>(isl (read_expr t word_name w i) \<longleftrightarrow> w < i + width t)
   \<and> (isl (write_expr t var_name word_name w i) \<longleftrightarrow> w < i + width t)\<close>
  by (cases t) (auto simp: read_expr_def write_expr_def Let_def)

text \<open>
  Claim C2, as stated, fails: at word width 32 and offset 0 the float decode takes the
  whole word, not the slice \<open>[31, 0]\<close>.
\<close>

theorem float_decode_counterexample:
  \<open>read_expr FloatType ''w0.data'' 32 0 = Inr (float_decode_whole ''w0.data'')
   \<and> read_expr FloatType ''w0.data'' 32 0 \<noteq> Inr (float_decode_slice ''w0.data'' 0)\<close>
  by (simp add: read_expr_def float_decode_whole_def float_decode_slice_def range_expr_def)

text \<open>
  Claim C2, amended. Whenever \<open>i + 32 \<le> w\<close>, the float encode writes the union's
  unsigned member into the slice \<open>[i + 31, i]\<close>, also at \<open>w = 32\<close>, \<open>i = 0\<close>; the float
  decode reads the slice \<open>[i + 31, i]\<close> into the union, except at \<open>w = 32\<close>, \<open>i = 0\<close>,
  where it reads the whole word.
\<close>

theorem float_slice_based:
  \<open>i + 32 \<le> w \<Longrightarrow>
     write_expr FloatType var_name word_name w i = Inr (float_encode_slice var_name word_name i)
     \<and> read_expr FloatType word_name w i
         = Inr (if w = 32 \<and> i = 0 then float_decode_whole word_name
                else float_decode_slice word_name i)\<close>
  by (auto simp: read_expr_def write_expr_def float_decode_whole_def float_decode_slice_def
      float_encode_slice_def Let_def add.commute)

theorem float_slice_based_witness:
  \<open>(16::int) + 32 \<le> 64
   \<and> write_expr FloatType ''x'' ''w1.data'' 64 16 = Inr (float_encode_slice ''x'' ''w1.data'' 16)
   \<and> read_expr FloatType ''w1.data'' 64 16 = Inr (float_decode_slice ''w1.data'' 16)\<close>
  using float_slice_based [of 16 64 \<open>''x''\<close> \<open>''w1.data''\<close>] by simp

section \<open>The width check of the generators\<close>

lemma check_widths_Some:
  \<open>\<exists>f \<in> set fs. W < width (dtype f) \<Longrightarrow>
     \<exists>f \<in> set fs. W < width (dtype f) \<and> check_widths fs W = Some (too_wide f W)\<close>
  by (induction fs) auto

lemma check_widths_None:
  \<open>check_widths fs W = None \<longleftrightarrow> (\<forall>f \<in> set fs. width (dtype f) \<le> W)\<close>
  by (induction fs) auto

text \<open>
  Claim C6. If some field is wider than the requested word width, both generators fail
  with the error that names the first such field. The error is the result of the check
  over all fields; no packing is done and no text is returned.
\<close>

theorem field_too_wide:
  assumes \<open>\<exists>f \<in> set fs. W < width (dtype f)\<close>
  shows \<open>\<exists>f \<in> set fs. W < width (dtype f)
           \<and> check_widths fs W = Some (too_wide f W)
           \<and> gen_stream_read sname fs W = Inl (too_wide f W)
           \<and> gen_stream_write sname fs W = Inl (too_wide f W)\<close>
proof -
  from check_widths_Some [OF assms] obtain f
    where f: \<open>f \<in> set fs\<close> \<open>W < width (dtype f)\<close> \<open>check_widths fs W = Some (too_wide f W)\<close>
    by blast
  then have \<open>gen_stream_read sname fs W = Inl (too_wide f W)\<close>
    and \<open>gen_stream_write sname fs W = Inl (too_wide f W)\<close>
    by (simp_all add: gen_stream_read_def gen_stream_write_def)
  with f show ?thesis by blast
qed

theorem field_too_wide_witness:
  \<open>gen_stream_read ''S'' [fld ''a'' (IntType 8 False), fld ''c'' FloatType] 16
     = Inl (too_wide (fld ''c'' FloatType) 16)
   \<and> gen_stream_write ''S'' [fld ''a'' (IntType 8 False), fld ''c'' FloatType] 16
     = Inl (too_wide (fld ''c'' FloatType) 16)\<close>
proof -
  have \<open>\<exists>f \<in> set [fld ''a'' (IntType 8 False), fld ''c'' FloatType]. 16 < width (dtype f)\<close>
    by (simp add: fld_def)
  from field_too_wide [OF this, of \<open>''S''\<close>] show ?thesis
    by (auto simp: fld_def)
qed

section \<open>Dispatchers without widths, records without fields\<close>

text \<open>
  Claim C8. With no configured width the dispatcher generator returns, without
  raising, a write stub and a read stub; each holds the assertion
  \<^verbatim>\<open>static_assert(sizeof(Tstream) == 0, ...)\<close> with a message that names the record.
\<close>

theorem no_widths_dispatch:
  \<open>gen_stream_dispatch sname [] =
     (join ''\<newline>''
        [''    template<typename Tstream>'',
         ''    void stream_write(hls::stream<Tstream>& out, bool tlast = true) const {'',
         ''        static_assert(sizeof(Tstream) == 0, '',
         ''                     "No stream bus widths configured for '' @ sname @ ''");'',
         ''    }''],
      join ''\<newline>''
        [''    template<typename Tstream>'',
         ''    bool stream_read(hls::stream<Tstream>& in) {'',
         ''        static_assert(sizeof(Tstream) == 0, '',
         ''                     "No stream bus widths configured for '' @ sname @ ''");'',
         ''        return false;'',
         ''    }''])\<close>
  by (simp add: gen_stream_dispatch_def)

text \<open>
  Claim C9. For a record without fields and any word width, the write routine is the
  header followed by the closing brace, with no \<^verbatim>\<open>out.write\<close> line, and the read
  routine is generated too, with the line \<^verbatim>\<open>bool tlast = None.last;\<close>.
\<close>

theorem empty_record_routines:
  \<open>gen_stream_write sname [] W = Inr (join ''\<newline>'' (write_header sname W @ [''    }'']))
   \<and> gen_stream_read sname [] W
       = Inr (join ''\<newline>''
                (read_header sname W
                 @ [''        bool tlast = None.last;'', [], ''        return tlast;'', ''    }'']))\<close>
  by (simp add: gen_stream_write_def gen_stream_read_def str_opt_def)

section \<open>The generators follow the word packer\<close>

text \<open>
  When no field is wider than the word, no decode or encode of the loops raises, and
  the lines of both loops are the emitter's lines for the packer's placements. The
  loops are started in any state: \<open>opn\<close> and \<open>k\<close> give the word variable and the
  word counter, \<open>off\<close> the bit index, \<open>L\<close> the lines so far.
\<close>

lemma read_expr_fits:
  \<open>width t + i \<le> W \<Longrightarrow> \<exists>x. read_expr t wn W i = Inr x\<close>
  by (cases t) (auto simp: read_expr_def Let_def)

lemma write_expr_fits:
  \<open>width t + i \<le> W \<Longrightarrow> \<exists>x. write_expr t v wn W i = Inr x\<close>
  by (cases t) (auto simp: write_expr_def Let_def)

lemma read_fields_pack:
  assumes \<open>\<forall>f \<in> set fs. fwidth f \<le> W\<close> and \<open>opn \<longrightarrow> 0 < k\<close>
  shows \<open>\<exists>s'. read_fields W fs
                \<lparr>ind0 = off, word_count = k, word_var = map_option wname (prev_word opn k),
                 lines = L\<rparr> = Inr s'
           \<and> lines s' = L @ read_body W (prev_word opn k) (pack_from W opn k off fs)
           \<and> word_var s' = map_option wname
                (final_word (prev_word opn k) (pack_from W opn k off fs))\<close>
  using assms
proof (induction fs arbitrary: opn k off L)
  case Nil
  then show ?case by simp
next
  case (Cons f fs)
  from Cons.prems have wf: \<open>fwidth f \<le> W\<close> and wfs: \<open>\<forall>f \<in> set fs. fwidth f \<le> W\<close> by simp_all
  show ?case
  proof (cases \<open>opn \<and> off + fwidth f \<le> W\<close>)
    case True
    then have opn: \<open>opn\<close> and fit: \<open>off + fwidth f \<le> W\<close> by simp_all
    from fit obtain x where e: \<open>read_expr (dtype f) (wname (k - 1) @ ''.data'') W off = Inr x\<close>
      using read_expr_fits [of \<open>dtype f\<close> off W] by (auto simp: fwidth_def)
    define L' where \<open>L' = L @ [''        '' @ name f @ '' = '' @ x @ '';'']\<close>
    have k: \<open>True \<longrightarrow> 0 < k\<close> using Cons.prems(2) opn by simp
    from Cons.IH [OF wfs k, of \<open>off + fwidth f\<close> L']
    obtain s' where s': \<open>read_fields W fs
                \<lparr>ind0 = off + fwidth f, word_count = k, word_var = map_option wname (prev_word True k),
                 lines = L'\<rparr> = Inr s'\<close>
       and l: \<open>lines s' = L' @ read_body W (prev_word True k) (pack_from W True k (off + fwidth f) fs)\<close>
       and v: \<open>word_var s' = map_option wname
                (final_word (prev_word True k) (pack_from W True k (off + fwidth f) fs))\<close>
      by blast
    have step: \<open>read_fields W (f # fs)
                \<lparr>ind0 = off, word_count = k, word_var = map_option wname (prev_word opn k),
                 lines = L\<rparr> = Inr s'\<close>
      using s' opn fit e by (simp add: prev_word_def fwidth_def Let_def L'_def)
    have body: \<open>read_body W (prev_word opn k) (pack_from W opn k off (f # fs))
        = [''        '' @ name f @ '' = '' @ x @ '';'']
          @ read_body W (prev_word True k) (pack_from W True k (off + fwidth f) fs)\<close>
      using opn fit e by (simp add: prev_word_def text_of_def decode_line_def)
    have fin: \<open>final_word (prev_word opn k) (pack_from W opn k off (f # fs))
        = final_word (prev_word True k) (pack_from W True k (off + fwidth f) fs)\<close>
      using opn fit by (simp add: prev_word_def)
    show ?thesis using step l v by (simp only: body fin L'_def append_assoc) blast
  next
    case False
    from wf obtain x where e: \<open>read_expr (dtype f) (wname k @ ''.data'') W 0 = Inr x\<close>
      using read_expr_fits [of \<open>dtype f\<close> 0 W] by (auto simp: fwidth_def)
    have ne: \<open>prev_word opn k \<noteq> Some k\<close>
      using Cons.prems(2) by (auto simp: prev_word_def)
    define L' where \<open>L' = L @ [''        Tstream '' @ wname k @ '' = in.read();'',
                   ''        '' @ name f @ '' = '' @ x @ '';'']\<close>
    have k: \<open>True \<longrightarrow> 0 < k + 1\<close> by simp
    from Cons.IH [OF wfs k, of \<open>fwidth f\<close> L']
    obtain s' where s': \<open>read_fields W fs
                \<lparr>ind0 = fwidth f, word_count = k + 1, word_var = map_option wname (prev_word True (k + 1)),
                 lines = L'\<rparr> = Inr s'\<close>
       and l: \<open>lines s' = L' @ read_body W (prev_word True (k + 1)) (pack_from W True (k + 1) (fwidth f) fs)\<close>
       and v: \<open>word_var s' = map_option wname
                (final_word (prev_word True (k + 1)) (pack_from W True (k + 1) (fwidth f) fs))\<close>
      by blast
    have new: \<open>W < off + width (dtype f) \<or> prev_word opn k = None\<close>
      using False by (auto simp: prev_word_def fwidth_def)
    have step: \<open>read_fields W (f # fs)
                \<lparr>ind0 = off, word_count = k, word_var = map_option wname (prev_word opn k),
                 lines = L\<rparr> = Inr s'\<close>
      using s' new e by (auto simp: prev_word_def fwidth_def Let_def L'_def wname_def)
    have body: \<open>read_body W (prev_word opn k) (pack_from W opn k off (f # fs))
        = [''        Tstream '' @ wname k @ '' = in.read();'',
           ''        '' @ name f @ '' = '' @ x @ '';'']
          @ read_body W (prev_word True (k + 1)) (pack_from W True (k + 1) (fwidth f) fs)\<close>
      using False ne e by (auto simp: prev_word_def text_of_def decode_line_def)
    have fin: \<open>final_word (prev_word opn k) (pack_from W opn k off (f # fs))
        = final_word (prev_word True (k + 1)) (pack_from W True (k + 1) (fwidth f) fs)\<close>
      using False by (auto simp: prev_word_def)
    show ?thesis using step l v by (simp only: body fin L'_def append_assoc) blast
  qed
qed

lemma write_fields_pack:
  assumes \<open>\<forall>f \<in> set fs. fwidth f \<le> W\<close> and \<open>opn \<longrightarrow> 0 < k\<close>
  shows \<open>\<exists>s'. write_fields W tot fs
                \<lparr>ind0 = off, word_count = k, word_var = map_option wname (prev_word opn k),
                 lines = L\<rparr> = Inr s'
           \<and> lines s' = L @ write_body W (prev_word opn k) (pack_from W opn k off fs)
           \<and> word_var s' = map_option wname
                (final_word (prev_word opn k) (pack_from W opn k off fs))\<close>
  using assms
proof (induction fs arbitrary: opn k off L)
  case Nil
  then show ?case by simp
next
  case (Cons f fs)
  from Cons.prems have wf: \<open>fwidth f \<le> W\<close> and wfs: \<open>\<forall>f \<in> set fs. fwidth f \<le> W\<close> by simp_all
  show ?case
  proof (cases \<open>opn \<and> off + fwidth f \<le> W\<close>)
    case True
    then have opn: \<open>opn\<close> and fit: \<open>off + fwidth f \<le> W\<close> by simp_all
    from fit obtain x
      where e: \<open>write_expr (dtype f) (name f) (wname (k - 1) @ ''.data'') W off = Inr x\<close>
      using write_expr_fits [of \<open>dtype f\<close> off W] by (auto simp: fwidth_def)
    define L' where \<open>L' = L @ [''        '' @ x]\<close>
    have k: \<open>True \<longrightarrow> 0 < k\<close> using Cons.prems(2) opn by simp
    from Cons.IH [OF wfs k, of \<open>off + fwidth f\<close> L']
    obtain s' where s': \<open>write_fields W tot fs
                \<lparr>ind0 = off + fwidth f, word_count = k, word_var = map_option wname (prev_word True k),
                 lines = L'\<rparr> = Inr s'\<close>
       and l: \<open>lines s' = L' @ write_body W (prev_word True k) (pack_from W True k (off + fwidth f) fs)\<close>
       and v: \<open>word_var s' = map_option wname
                (final_word (prev_word True k) (pack_from W True k (off + fwidth f) fs))\<close>
      by blast
    have step: \<open>write_fields W tot (f # fs)
                \<lparr>ind0 = off, word_count = k, word_var = map_option wname (prev_word opn k),
                 lines = L\<rparr> = Inr s'\<close>
      using s' opn fit e by (simp add: prev_word_def fwidth_def Let_def L'_def)
    have body: \<open>write_body W (prev_word opn k) (pack_from W opn k off (f # fs))
        = [''        '' @ x]
          @ write_body W (prev_word True k) (pack_from W True k (off + fwidth f) fs)\<close>
      using opn fit e by (simp add: prev_word_def text_of_def encode_line_def)
    have fin: \<open>final_word (prev_word opn k) (pack_from W opn k off (f # fs))
        = final_word (prev_word True k) (pack_from W True k (off + fwidth f) fs)\<close>
      using opn fit by (simp add: prev_word_def)
    show ?thesis using step l v by (simp only: body fin L'_def append_assoc) blast
  next
    case False
    from wf obtain x where e: \<open>write_expr (dtype f) (name f) (wname k @ ''.data'') W 0 = Inr x\<close>
      using write_expr_fits [of \<open>dtype f\<close> 0 W] by (auto simp: fwidth_def)
    have ne: \<open>prev_word opn k \<noteq> Some k\<close>
      using Cons.prems(2) by (auto simp: prev_word_def)
    define L' where \<open>L' = L
        @ (case prev_word opn k of None \<Rightarrow> [] | Some j \<Rightarrow> close_lines j ''false'' @ [[]])
        @ open_lines k @ [''        '' @ x]\<close>
    have k: \<open>True \<longrightarrow> 0 < k + 1\<close> by simp
    from Cons.IH [OF wfs k, of \<open>fwidth f\<close> L']
    obtain s' where s': \<open>write_fields W tot fs
                \<lparr>ind0 = fwidth f, word_count = k + 1, word_var = map_option wname (prev_word True (k + 1)),
                 lines = L'\<rparr> = Inr s'\<close>
       and l: \<open>lines s' = L' @ write_body W (prev_word True (k + 1)) (pack_from W True (k + 1) (fwidth f) fs)\<close>
       and v: \<open>word_var s' = map_option wname
                (final_word (prev_word True (k + 1)) (pack_from W True (k + 1) (fwidth f) fs))\<close>
      by blast
    have new: \<open>W < off + width (dtype f) \<or> prev_word opn k = None\<close>
      using False by (auto simp: prev_word_def fwidth_def)
    have step: \<open>write_fields W tot (f # fs)
                \<lparr>ind0 = off, word_count = k, word_var = map_option wname (prev_word opn k),
                 lines = L\<rparr> = Inr s'\<close>
      using s' new e
      by (auto simp: prev_word_def fwidth_def Let_def L'_def wname_def open_lines_def close_lines_def)
    have body: \<open>write_body W (prev_word opn k) (pack_from W opn k off (f # fs))
        = (case prev_word opn k of None \<Rightarrow> [] | Some j \<Rightarrow> close_lines j ''false'' @ [[]])
          @ open_lines k @ [''        '' @ x]
          @ write_body W (prev_word True (k + 1)) (pack_from W True (k + 1) (fwidth f) fs)\<close>
      using False ne e by (auto simp: prev_word_def text_of_def encode_line_def)
    have fin: \<open>final_word (prev_word opn k) (pack_from W opn k off (f # fs))
        = final_word (prev_word True (k + 1)) (pack_from W True (k + 1) (fwidth f) fs)\<close>
      using False by (auto simp: prev_word_def)
    show ?thesis using step l v by (simp only: body fin L'_def append_assoc) blast
  qed
qed

lemma gen_stream_read_pack:
  assumes \<open>\<forall>f \<in> set fs. fwidth f \<le> W\<close>
  shows \<open>gen_stream_read sname fs W = Inr (emit_read sname W (pack W fs))\<close>
proof -
  from assms have c: \<open>check_widths fs W = None\<close>
    by (simp add: check_widths_None fwidth_def)
  have o: \<open>False \<longrightarrow> 0 < (0::nat)\<close> by simp
  from read_fields_pack [OF assms o, of 0 \<open>read_header sname W\<close>] c
  show ?thesis
    by (auto simp: gen_stream_read_def emit_read_def pack_def prev_word_def)
qed

lemma gen_stream_write_pack:
  assumes \<open>\<forall>f \<in> set fs. fwidth f \<le> W\<close>
  shows \<open>gen_stream_write sname fs W = Inr (emit_write sname W (pack W fs))\<close>
proof -
  from assms have c: \<open>check_widths fs W = None\<close>
    by (simp add: check_widths_None fwidth_def)
  have o: \<open>False \<longrightarrow> 0 < (0::nat)\<close> by simp
  from write_fields_pack [OF assms o, of \<open>total_words W fs\<close> 0 \<open>write_header sname W\<close>] c
  show ?thesis
    by (auto simp: gen_stream_write_def emit_write_def pack_def prev_word_def wname_def
        close_lines_def split: option.splits)
qed

subsection \<open>Properties of the placements\<close>

lemma pack_from_fields: \<open>map fst (pack_from W opn k off fs) = fs\<close>
  by (induction fs arbitrary: opn k off) auto

lemma pack_from_within:
  assumes \<open>\<forall>f \<in> set fs. 0 \<le> fwidth f \<and> fwidth f \<le> W\<close> and \<open>0 \<le> off\<close>
  shows \<open>\<forall>p \<in> set (pack_from W opn k off fs). within_word W p\<close>
  using assms
proof (induction fs arbitrary: opn k off)
  case Nil
  then show ?case by simp
next
  case (Cons f fs)
  from Cons.prems have f: \<open>0 \<le> fwidth f\<close> \<open>fwidth f \<le> W\<close>
    and fs: \<open>\<forall>f \<in> set fs. 0 \<le> fwidth f \<and> fwidth f \<le> W\<close> by simp_all
  show ?case
  proof (cases \<open>opn \<and> off + fwidth f \<le> W\<close>)
    case True
    from Cons.IH [OF fs, of \<open>off + fwidth f\<close> True k] f Cons.prems(2) True
    show ?thesis by simp
  next
    case False
    from Cons.IH [OF fs, of \<open>fwidth f\<close> True \<open>k + 1\<close>] f False
    show ?thesis by auto
  qed
qed

lemma pack_from_after:
  assumes \<open>\<forall>f \<in> set fs. 0 \<le> fwidth f\<close>
    and \<open>(g, k', off') \<in> set (pack_from W opn k off fs)\<close>
  shows \<open>(opn \<and> k' = k - 1 \<and> off \<le> off') \<or> k \<le> k'\<close>
  using assms
proof (induction fs arbitrary: opn k off)
  case Nil
  then show ?case by simp
next
  case (Cons f fs)
  then show ?case
    by (fastforce split: if_splits)
qed

lemma pack_from_sorted:
  assumes \<open>\<forall>f \<in> set fs. 0 \<le> fwidth f\<close> and \<open>opn \<longrightarrow> 0 < k\<close>
  shows \<open>sorted_wrt before (pack_from W opn k off fs)\<close>
  using assms
proof (induction fs arbitrary: opn k off)
  case Nil
  then show ?case by simp
next
  case (Cons f fs)
  from Cons.prems have nn: \<open>\<forall>f \<in> set fs. 0 \<le> fwidth f\<close> by simp
  show ?case
  proof (cases \<open>opn \<and> off + fwidth f \<le> W\<close>)
    case True
    with Cons.prems have k: \<open>0 < k\<close> by simp
    have \<open>before (f, k - 1, off) q\<close> if \<open>q \<in> set (pack_from W True k (off + fwidth f) fs)\<close> for q
    proof -
      obtain g k' off' where q: \<open>q = (g, k', off')\<close> by (cases q)
      from pack_from_after [OF nn, of g k' off' W True k \<open>off + fwidth f\<close>] that q k
      show ?thesis by (auto simp: before_def)
    qed
    moreover have \<open>sorted_wrt before (pack_from W True k (off + fwidth f) fs)\<close>
      using Cons.IH [OF nn, of True k] k by simp
    ultimately show ?thesis using True by simp
  next
    case False
    have \<open>before (f, k, 0) q\<close> if \<open>q \<in> set (pack_from W True (k + 1) (fwidth f) fs)\<close> for q
    proof -
      obtain g k' off' where q: \<open>q = (g, k', off')\<close> by (cases q)
      from pack_from_after [OF nn, of g k' off' W True \<open>k + 1\<close> \<open>fwidth f\<close>] that q
      show ?thesis by (auto simp: before_def)
    qed
    moreover have \<open>sorted_wrt before (pack_from W True (k + 1) (fwidth f) fs)\<close>
      using Cons.IH [OF nn, of True \<open>k + 1\<close>] by simp
    ultimately show ?thesis using False by auto
  qed
qed

lemma before_separate: \<open>before p q \<Longrightarrow> separate p q\<close>
  by (cases p; cases q) (auto simp: before_def)

lemma pack_separate:
  assumes \<open>\<forall>f \<in> set fs. 0 \<le> fwidth f\<close> and \<open>i < j\<close> and \<open>j < length fs\<close>
  shows \<open>separate (pack W fs ! i) (pack W fs ! j)\<close>
proof -
  have \<open>sorted_wrt before (pack W fs)\<close>
    unfolding pack_def by (rule pack_from_sorted [OF assms(1)]) simp
  moreover have \<open>length (pack W fs) = length fs\<close>
    using pack_from_fields [of W False 0 0 fs] unfolding pack_def by (metis length_map)
  ultimately have \<open>before (pack W fs ! i) (pack W fs ! j)\<close>
    using assms(2,3) by (simp add: sorted_wrt_iff_nth_less)
  then show ?thesis by (rule before_separate)
qed

lemma first_pass_words:
  assumes \<open>opn \<longleftrightarrow> 0 < k\<close>
  shows \<open>snd (first_pass W fs (off, k))
     = words_upto (final_word (prev_word opn k) (pack_from W opn k off fs))\<close>
  using assms
proof (induction fs arbitrary: opn k off)
  case Nil
  then show ?case by (auto simp: words_upto_def prev_word_def)
next
  case (Cons f fs)
  show ?case
  proof (cases \<open>opn \<and> off + fwidth f \<le> W\<close>)
    case True
    with Cons.prems have k: \<open>0 < k\<close> by simp
    from Cons.IH [of True k \<open>off + fwidth f\<close>] k True show ?thesis
      by (simp add: fwidth_def prev_word_def Let_def)
  next
    case False
    from Cons.IH [of True \<open>k + 1\<close> \<open>fwidth f\<close>] False Cons.prems show ?thesis
      by (auto simp: fwidth_def prev_word_def Let_def)
  qed
qed

lemma total_words_pack: \<open>total_words W fs = n_words (pack W fs)\<close>
  using first_pass_words [of False 0 W fs 0]
  by (simp add: total_words_def n_words_def pack_def prev_word_def)

lemma pack_from_words:
  assumes \<open>opn \<longrightarrow> 0 < k\<close>
  shows \<open>(\<forall>p \<in> set (pack_from W opn k off fs).
            fst (snd p) < words_upto (final_word (prev_word opn k) (pack_from W opn k off fs)))
       \<and> (\<forall>j. k \<le> j \<and> j < words_upto (final_word (prev_word opn k) (pack_from W opn k off fs))
            \<longrightarrow> j \<in> (fst \<circ> snd) ` set (pack_from W opn k off fs))
       \<and> (opn \<longrightarrow> k \<le> words_upto (final_word (prev_word opn k) (pack_from W opn k off fs)))\<close>
  using assms
proof (induction fs arbitrary: opn k off)
  case Nil
  then show ?case by (auto simp: words_upto_def prev_word_def)
next
  case (Cons f fs)
  show ?case
  proof (cases \<open>opn \<and> off + fwidth f \<le> W\<close>)
    case True
    with Cons.prems have k: \<open>0 < k\<close> by simp
    define n where \<open>n = words_upto (final_word (prev_word True k) (pack_from W True k (off + fwidth f) fs))\<close>
    from Cons.IH [of True k \<open>off + fwidth f\<close>] k
    have 1: \<open>\<forall>p \<in> set (pack_from W True k (off + fwidth f) fs). fst (snd p) < n\<close>
      and 2: \<open>\<forall>j. k \<le> j \<and> j < n \<longrightarrow> j \<in> (fst \<circ> snd) ` set (pack_from W True k (off + fwidth f) fs)\<close>
      and 3: \<open>k \<le> n\<close>
      unfolding n_def by simp_all
    have pl: \<open>pack_from W opn k off (f # fs) = (f, k - 1, off) # pack_from W True k (off + fwidth f) fs\<close>
      using True by simp
    have n: \<open>words_upto (final_word (prev_word opn k)
               ((f, k - 1, off) # pack_from W True k (off + fwidth f) fs)) = n\<close>
      using True by (simp add: n_def prev_word_def)
    show ?thesis unfolding pl n using 1 2 3 k by auto
  next
    case False
    define n where \<open>n = words_upto (final_word (prev_word True (k + 1)) (pack_from W True (k + 1) (fwidth f) fs))\<close>
    from Cons.IH [of True \<open>k + 1\<close> \<open>fwidth f\<close>]
    have 1: \<open>\<forall>p \<in> set (pack_from W True (k + 1) (fwidth f) fs). fst (snd p) < n\<close>
      and 2: \<open>\<forall>j. k + 1 \<le> j \<and> j < n \<longrightarrow> j \<in> (fst \<circ> snd) ` set (pack_from W True (k + 1) (fwidth f) fs)\<close>
      and 3: \<open>k + 1 \<le> n\<close>
      unfolding n_def by simp_all
    have pl: \<open>pack_from W opn k off (f # fs) = (f, k, 0) # pack_from W True (k + 1) (fwidth f) fs\<close>
      using False by auto
    have n: \<open>words_upto (final_word (prev_word opn k)
               ((f, k, 0) # pack_from W True (k + 1) (fwidth f) fs)) = n\<close>
      by (simp add: n_def prev_word_def)
    have \<open>j \<in> (fst \<circ> snd) ` set ((f, k, 0) # pack_from W True (k + 1) (fwidth f) fs)\<close>
      if \<open>k \<le> j\<close> \<open>j < n\<close> for j
    proof (cases \<open>j = k\<close>)
      case True
      then show ?thesis by simp
    next
      case False
      with that have \<open>k + 1 \<le> j \<and> j < n\<close> by simp
      with 2 show ?thesis by auto
    qed
    then show ?thesis unfolding pl n using 1 3 by auto
  qed
qed

lemma pack_words: \<open>(fst \<circ> snd) ` set (pack W fs) = {..<n_words (pack W fs)}\<close>
proof -
  have o: \<open>False \<longrightarrow> 0 < (0::nat)\<close> by simp
  from pack_from_words [OF o, of W 0 fs]
  show ?thesis
    unfolding pack_def n_words_def prev_word_def by (auto simp: image_iff) 
qed

text \<open>
  Claim C1. For a record layout and a word width such that no field is wider than the
  word (widths being numbers of bits, hence not negative), the read routine and the
  write routine are the emitter's text for the placements of the greedy single-pass
  packer: fields in declaration order, a field at the running offset when a word is
  open and \<open>offset + width \<le> W\<close>, otherwise at offset 0 of a new word. Every
  placement lies within its word, two different fields never overlap within a word,
  the words used are exactly those below the word count, and the word count is the
  count of the source's first pass over the running offset.
\<close>

theorem greedy_packing:
  assumes \<open>\<forall>f \<in> set fs. 0 \<le> fwidth f \<and> fwidth f \<le> W\<close>
  shows \<open>gen_stream_read sname fs W = Inr (emit_read sname W (pack W fs))
       \<and> gen_stream_write sname fs W = Inr (emit_write sname W (pack W fs))
       \<and> map fst (pack W fs) = fs
       \<and> (\<forall>p \<in> set (pack W fs). within_word W p)
       \<and> (\<forall>i j. i < j \<and> j < length fs \<longrightarrow> separate (pack W fs ! i) (pack W fs ! j))
       \<and> (fst \<circ> snd) ` set (pack W fs) = {..<n_words (pack W fs)}
       \<and> n_words (pack W fs) = total_words W fs\<close>
proof -
  from assms have le: \<open>\<forall>f \<in> set fs. fwidth f \<le> W\<close> and nn: \<open>\<forall>f \<in> set fs. 0 \<le> fwidth f\<close>
    by simp_all
  have r: \<open>gen_stream_read sname fs W = Inr (emit_read sname W (pack W fs))\<close>
    by (rule gen_stream_read_pack [OF le])
  have w: \<open>gen_stream_write sname fs W = Inr (emit_write sname W (pack W fs))\<close>
    by (rule gen_stream_write_pack [OF le])
  have o: \<open>map fst (pack W fs) = fs\<close>
    unfolding pack_def by (rule pack_from_fields)
  have i: \<open>\<forall>p \<in> set (pack W fs). within_word W p\<close>
    unfolding pack_def by (rule pack_from_within [OF assms]) simp
  have s: \<open>\<forall>i j. i < j \<and> j < length fs \<longrightarrow> separate (pack W fs ! i) (pack W fs ! j)\<close>
    using pack_separate [OF nn] by blast
  show ?thesis using r w o i s pack_words [of W fs] total_words_pack [of W fs] by simp
qed

theorem greedy_packing_witness:
  \<open>pack 32 [fld ''a'' (IntType 20 False), fld ''b'' (IntType 20 True)]
     = [(fld ''a'' (IntType 20 False), 0, 0), (fld ''b'' (IntType 20 True), 1, 0)]
   \<and> gen_stream_read ''S'' [fld ''a'' (IntType 20 False), fld ''b'' (IntType 20 True)] 32
     = Inr (emit_read ''S'' 32
              [(fld ''a'' (IntType 20 False), 0, 0), (fld ''b'' (IntType 20 True), 1, 0)])
   \<and> gen_stream_write ''S'' [fld ''a'' (IntType 20 False), fld ''b'' (IntType 20 True)] 32
     = Inr (emit_write ''S'' 32
              [(fld ''a'' (IntType 20 False), 0, 0), (fld ''b'' (IntType 20 True), 1, 0)])
   \<and> total_words 32 [fld ''a'' (IntType 20 False), fld ''b'' (IntType 20 True)] = 2\<close>
proof -
  have h: \<open>\<forall>f \<in> set [fld ''a'' (IntType 20 False), fld ''b'' (IntType 20 True)].
             0 \<le> fwidth f \<and> fwidth f \<le> 32\<close>
    by (simp add: fld_def fwidth_def)
  have p: \<open>pack 32 [fld ''a'' (IntType 20 False), fld ''b'' (IntType 20 True)]
     = [(fld ''a'' (IntType 20 False), 0, 0), (fld ''b'' (IntType 20 True), 1, 0)]\<close>
    by (simp add: pack_def fld_def fwidth_def)
  from greedy_packing [OF h, of \<open>''S''\<close>] show ?thesis
    unfolding p by (simp add: n_words_def words_upto_def)
qed

text \<open>
  The hypothesis on the sign is needed for the two statements about bit ranges only.
  \<^verbatim>\<open>IntType\<close> rejects a width that is not positive and the width of a float is 32,
  but \<^verbatim>\<open>EnumType\<close> stores an explicitly given width unchecked; with a negative one
  the running offset moves backwards, and the third field below is placed on the first.
\<close>

lemma negative_width_overlap:
  \<open>pack 32 [fld ''a'' (IntType 8 False), fld ''e'' (EnumType ''E'' [(''A'', 0)] (- 8)),
            fld ''c'' (IntType 8 False)]
     = [(fld ''a'' (IntType 8 False), 0, 0),
        (fld ''e'' (EnumType ''E'' [(''A'', 0)] (- 8)), 0, 8),
        (fld ''c'' (IntType 8 False), 0, 0)]\<close>
  by (simp add: pack_def fld_def fwidth_def)

section \<open>The write routine, word by word\<close>

lemma group_nonempty: \<open>group W off cur fs \<noteq> []\<close>
  by (induction fs arbitrary: off cur) auto

lemma write_words_cons:
  \<open>ws \<noteq> [] \<Longrightarrow> write_words W k (w # ws) = word_block W ''false'' k w @ [[]] @ write_words W (Suc k) ws\<close>
  by (cases ws) simp_all

lemma write_body_group:
  \<open>open_lines k @ map (\<lambda>(f, off). encode_line W (f, k, off)) cur
     @ write_body W (Some k) (pack_from W True (Suc k) off fs)
     @ (case final_word (Some k) (pack_from W True (Suc k) off fs) of
          None \<Rightarrow> [] | Some j \<Rightarrow> close_lines j ''tlast'')
   = write_words W k (group W off cur fs)\<close>
proof (induction fs arbitrary: k off cur)
  case Nil
  then show ?case by (simp add: word_block_def)
next
  case (Cons f fs)
  show ?case
  proof (cases \<open>off + fwidth f \<le> W\<close>)
    case True
    from Cons.IH [of k \<open>cur @ [(f, off)]\<close> \<open>off + fwidth f\<close>] True
    show ?thesis by simp
  next
    case False
    from Cons.IH [of \<open>Suc k\<close> \<open>[(f, 0)]\<close> \<open>fwidth f\<close>] False
    show ?thesis
      by (simp add: write_words_cons [OF group_nonempty] word_block_def)
  qed
qed

lemma emit_write_words:
  \<open>emit_write sname W (pack W (f # fs))
     = join ''\<newline>'' (write_header sname W @ write_words W 0 (words_of W (f # fs)) @ [''    }''])\<close>
  by (simp add: emit_write_def pack_def words_of_def
      write_body_group [of 0 W \<open>[(f, 0)]\<close> \<open>fwidth f\<close> fs, symmetric])

lemma group_fields:
  \<open>concat (map (map fst) (group W off cur fs)) = map fst cur @ fs\<close>
  by (induction fs arbitrary: off cur) auto

lemma words_of_fields: \<open>concat (map (map fst) (words_of W fs)) = fs\<close>
  by (cases fs) (simp_all add: words_of_def group_fields)

lemma group_length:
  \<open>k + length (group W off cur fs)
     = words_upto (final_word (Some k) (pack_from W True (Suc k) off fs))\<close>
proof (induction fs arbitrary: k off cur)
  case Nil
  then show ?case by (simp add: words_upto_def)
next
  case (Cons f fs)
  show ?case
  proof (cases \<open>off + fwidth f \<le> W\<close>)
    case True
    from Cons.IH [of k \<open>off + fwidth f\<close> \<open>cur @ [(f, off)]\<close>] True
    show ?thesis by simp
  next
    case False
    from Cons.IH [of \<open>Suc k\<close> \<open>fwidth f\<close> \<open>[(f, 0)]\<close>] False
    show ?thesis by simp
  qed
qed

lemma words_of_length: \<open>length (words_of W fs) = total_words W fs\<close>
proof (cases fs)
  case Nil
  then show ?thesis by (simp add: words_of_def total_words_def)
next
  case (Cons f fs')
  from group_length [of 0 W \<open>fwidth f\<close> \<open>[(f, 0)]\<close> fs'] show ?thesis
    by (simp add: Cons words_of_def total_words_pack n_words_def pack_def)
qed

text \<open>
  Claim C7. For a record layout with at least one field and a word width that no field
  exceeds, the write routine is the header, then one block per word in word order,
  then the closing brace. Every block declares its word and sets its data to zero
  before the encodes of its fields, and ends with the end-of-message flag and the
  single \<^verbatim>\<open>out.write\<close> of the word; the flag is \<^verbatim>\<open>false\<close> in every block but the
  last, where it is the caller's \<^verbatim>\<open>tlast\<close>. Every field is encoded in exactly one
  block, and there are as many blocks as the first pass counts words.
\<close>

theorem write_routine_words:
  assumes \<open>fs \<noteq> []\<close> and \<open>\<forall>f \<in> set fs. fwidth f \<le> W\<close>
  shows \<open>gen_stream_write sname fs W
           = Inr (join ''\<newline>''
                    (write_header sname W @ write_words W 0 (words_of W fs) @ [''    }'']))
       \<and> words_of W fs \<noteq> []
       \<and> concat (map (map fst) (words_of W fs)) = fs
       \<and> length (words_of W fs) = total_words W fs\<close>
proof -
  from assms(1) obtain f fs' where fs: \<open>fs = f # fs'\<close> by (cases fs) auto
  have \<open>gen_stream_write sname fs W = Inr (emit_write sname W (pack W fs))\<close>
    by (rule gen_stream_write_pack [OF assms(2)])
  then have 1: \<open>gen_stream_write sname fs W
           = Inr (join ''\<newline>''
                    (write_header sname W @ write_words W 0 (words_of W fs) @ [''    }'']))\<close>
    unfolding fs by (simp only: emit_write_words)
  have 2: \<open>words_of W fs \<noteq> []\<close>
    unfolding fs by (simp add: words_of_def group_nonempty)
  show ?thesis using 1 2 words_of_fields [of W fs] words_of_length [of W fs] by simp
qed

theorem write_routine_words_witness:
  \<open>words_of 32 [fld ''a'' (IntType 8 False), fld ''b'' (IntType 16 True)]
     = [[(fld ''a'' (IntType 8 False), 0), (fld ''b'' (IntType 16 True), 8)]]
   \<and> gen_stream_write ''S'' [fld ''a'' (IntType 8 False), fld ''b'' (IntType 16 True)] 32
     = Inr (join ''\<newline>''
              (write_header ''S'' 32
               @ word_block 32 ''tlast'' 0
                   [(fld ''a'' (IntType 8 False), 0), (fld ''b'' (IntType 16 True), 8)]
               @ [''    }'']))
   \<and> total_words 32 [fld ''a'' (IntType 8 False), fld ''b'' (IntType 16 True)] = 1\<close>
proof -
  have n: \<open>[fld ''a'' (IntType 8 False), fld ''b'' (IntType 16 True)] \<noteq> []\<close> by simp
  have h: \<open>\<forall>f \<in> set [fld ''a'' (IntType 8 False), fld ''b'' (IntType 16 True)]. fwidth f \<le> 32\<close>
    by (simp add: fld_def fwidth_def)
  have p: \<open>words_of 32 [fld ''a'' (IntType 8 False), fld ''b'' (IntType 16 True)]
     = [[(fld ''a'' (IntType 8 False), 0), (fld ''b'' (IntType 16 True), 8)]]\<close>
    by (simp add: words_of_def fld_def fwidth_def)
  from write_routine_words [OF n h, of \<open>''S''\<close>] show ?thesis
    unfolding p by simp
qed

section \<open>The sections of the include file\<close>

text \<open>The declaration of the enum \<open>Mode\<close> with the entries \<open>A\<close> and \<open>B\<close>.\<close>

lemma mode_preamble: \<open>preamble mode_enum = Some mode_decl\<close>
  by (simp add: mode_enum_def mode_decl_def str_int_def str_nat.simps)

text \<open>
  Claim C3, as stated, fails: a record whose two fields share the enum \<open>Mode\<close> gets the
  declaration of \<open>Mode\<close> twice among the lines of its include file, not once.
\<close>

theorem shared_declaration_counterexample:
  \<open>preamble (dtype (fld ''a'' mode_enum)) = Some mode_decl
   \<and> preamble (dtype (fld ''b'' mode_enum)) = Some mode_decl
   \<and> \<not> isl (gen_include_lines ''S'' [fld ''a'' mode_enum, fld ''b'' mode_enum] None None)
   \<and> count_list (projr (gen_include_lines ''S'' [fld ''a'' mode_enum, fld ''b'' mode_enum] None None))
        (aux_section mode_decl) = 2\<close>
  by code_simp

lemma aux_section_count:
  assumes \<open>strip_nonempty p\<close>
  shows \<open>count_list (preamble_lines fs) (aux_section p)
           = length (filter (\<lambda>f. preamble (dtype f) = Some p) fs)\<close>
proof (induction fs)
  case Nil
  then show ?case by simp
next
  case (Cons f fs)
  show ?case
  proof (cases \<open>preamble (dtype f)\<close>)
    case None
    with Cons show ?thesis by simp
  next
    case (Some q)
    with Cons assms show ?thesis
      by (auto simp: aux_section_def)
  qed
qed

lemma gen_include_lines_sections:
  assumes \<open>gen_include_lines sname fs include_file bus_widths = Inr ls\<close>
  shows \<open>\<exists>hd tl. length hd = 12 \<and> ls = hd @ preamble_lines fs @ map cpp_decl fs @ tl\<close>
proof -
  from assms have len: \<open>12 \<le> length ls\<close>
    unfolding gen_include_lines_def Let_def by (auto split: sum.splits prod.splits)
  from assms obtain tl where tl: \<open>drop 12 ls = preamble_lines fs @ map cpp_decl fs @ tl\<close>
    unfolding gen_include_lines_def Let_def by (auto split: sum.splits prod.splits)
  have \<open>ls = take 12 ls @ drop 12 ls\<close> by simp
  with tl have \<open>ls = take 12 ls @ preamble_lines fs @ map cpp_decl fs @ tl\<close> by simp
  moreover from len have \<open>length (take 12 ls) = 12\<close> by simp
  ultimately show ?thesis by blast
qed

text \<open>
  Claim C3, amended. When the include file is generated, its lines are twelve header
  lines, then the auxiliary declarations, then the field declarations in field order,
  then the rest; the auxiliary declarations come before the field declarations and are
  not deduplicated: a declaration that is not blank appears once for every field whose
  type has it, so a declaration shared by \<open>n\<close> fields appears \<open>n\<close> times.
\<close>

theorem declarations_per_field:
  assumes \<open>gen_include_lines sname fs include_file bus_widths = Inr ls\<close>
  shows \<open>(\<exists>hd tl. length hd = 12 \<and> ls = hd @ preamble_lines fs @ map cpp_decl fs @ tl)
       \<and> (\<forall>p. strip_nonempty p \<longrightarrow>
             count_list (preamble_lines fs) (aux_section p)
               = length (filter (\<lambda>f. preamble (dtype f) = Some p) fs))\<close>
  using gen_include_lines_sections [OF assms] aux_section_count by blast

theorem declarations_per_field_witness:
  \<open>\<not> isl (gen_include_lines ''S'' [fld ''a'' mode_enum, fld ''b'' mode_enum] None None)
   \<and> strip_nonempty mode_decl
   \<and> count_list (preamble_lines [fld ''a'' mode_enum, fld ''b'' mode_enum]) (aux_section mode_decl)
       = 2\<close>
proof -
  have ok: \<open>\<not> isl (gen_include_lines ''S'' [fld ''a'' mode_enum, fld ''b'' mode_enum] None None)\<close>
    by code_simp
  then obtain ls
    where ls: \<open>gen_include_lines ''S'' [fld ''a'' mode_enum, fld ''b'' mode_enum] None None = Inr ls\<close>
    by (cases \<open>gen_include_lines ''S'' [fld ''a'' mode_enum, fld ''b'' mode_enum] None None\<close>) auto
  have ne: \<open>strip_nonempty mode_decl\<close> by code_simp
  from declarations_per_field [OF ls] ne
  have \<open>count_list (preamble_lines [fld ''a'' mode_enum, fld ''b'' mode_enum]) (aux_section mode_decl)
      = length (filter (\<lambda>f. preamble (dtype f) = Some mode_decl)
                  [fld ''a'' mode_enum, fld ''b'' mode_enum])\<close>
    by blast
  also have \<open>\<dots> = 2\<close> by (simp add: fld_def mode_preamble)
  finally show ?thesis using ok ne by simp
qed

end
